theory Spec2Isabelle
  imports Main "HOL-Library.Sublist" "HOL-Library.Multiset"
begin

text \<open>
  A shallow embedding of \<^verbatim>\<open>src/services/redditService.js\<close> (token manager, pacing
  interceptor, retry configuration), of \<^verbatim>\<open>formatApiComments\<close> in the post controller
  and of \<^verbatim>\<open>cleanDescriptionText\<close> and the post mapping of
  \<^verbatim>\<open>src/controllers/subredditController.js\<close>. The first part holds the
  definitions, the second part the properties.
\<close>

chapter \<open>The embedding\<close>

section \<open>JavaScript values\<close>

text \<open>
  The payloads are decoded JSON. A value is \<open>undefined\<close>, \<open>null\<close>, a boolean, a number, a
  string, an array or an object. An object is the list of its own properties in insertion
  order; where a key is listed twice the first binding is the property. Numbers are
  integers in the model: the code only copies the numbers of a payload, tests them against
  zero and splices them into strings. A string is a list of code units; a \<^typ>\<open>char\<close>
  has 256 values, so the model covers texts whose code units are below 256.
\<close>

datatype json =
    JUndefined
  | JNull
  | JBool bool
  | JNum int
  | JStr string
  | JArr "json list"
  | JObj "(string \<times> json) list"

datatype error = TypeError | RangeError | Error string

text \<open>\<open>v == null\<close>: reading a property of such a value throws a \<open>TypeError\<close>.\<close>

fun nullish :: "json \<Rightarrow> bool" where
  "nullish JUndefined = True"
| "nullish JNull = True"
| "nullish v = False"

text \<open>\<open>ToBoolean\<close>, as \<open>if (v)\<close>, \<open>!v\<close>, \<open>v && w\<close> and \<open>v || w\<close> apply it.\<close>

fun truthy :: "json \<Rightarrow> bool" where
  "truthy JUndefined = False"
| "truthy JNull = False"
| "truthy (JBool b) = b"
| "truthy (JNum n) = (n \<noteq> 0)"
| "truthy (JStr s) = (s \<noteq> [])"
| "truthy (JArr xs) = True"
| "truthy (JObj kvs) = True"

text \<open>
  \<open>v.k\<close> for a value that is not nullish. An object yields the property or \<open>undefined\<close>.
  A boolean, a number, a string or an array yields \<open>undefined\<close> for every fixed name the
  code reads (none of them is a property of a prototype).
\<close>

fun js_get :: "json \<Rightarrow> string \<Rightarrow> json" where
  "js_get (JObj kvs) k = (case map_of kvs k of Some v \<Rightarrow> v | None \<Rightarrow> JUndefined)"
| "js_get v k = JUndefined"



text \<open>
  \<open>String(v)\<close>, as a template literal \<open>`...${v}...`\<close> applies it. A number below
  \<open>10\<^sup>2\<^sup>1\<close> is printed in decimal and a larger one in exponent form (\<open>1e+21\<close>,
  \<open>1.5e+21\<close>), the integer of the model standing for the number JavaScript prints with
  its digits; an array joins its elements with commas, a nullish element giving the empty
  string.
\<close>

fun digits :: "nat \<Rightarrow> string" where
  "digits n = (if n < 10 then [''0123456789'' ! n] else digits (n div 10) @ [''0123456789'' ! (n mod 10)])"

definition show_nat :: "nat \<Rightarrow> string" where
  "show_nat n =
     (if length (digits n) \<le> 21 then digits n
      else (let mantissa = rev (dropWhile (\<lambda>c. c = CHR ''0'') (rev (digits n)))
            in take 1 mantissa
               @ (if length mantissa \<le> 1 then [] else CHR ''.'' # drop 1 mantissa)
               @ ''e+'' @ digits (length (digits n) - 1)))"

definition show_int :: "int \<Rightarrow> string" where
  "show_int i = (if i < 0 then CHR ''-'' # show_nat (nat (- i)) else show_nat (nat i))"

fun join_comma :: "string list \<Rightarrow> string" where
  "join_comma [] = []"
| "join_comma [s] = s"
| "join_comma (s # t # ss) = s @ '','' @ join_comma (t # ss)"

fun js_to_string :: "json \<Rightarrow> string" where
  "js_to_string JUndefined = ''undefined''"
| "js_to_string JNull = ''null''"
| "js_to_string (JBool b) = (if b then ''true'' else ''false'')"
| "js_to_string (JNum n) = show_int n"
| "js_to_string (JStr s) = s"
| "js_to_string (JArr xs) = join_comma (map (\<lambda>x. if nullish x then [] else js_to_string x) xs)"
| "js_to_string (JObj kvs) = ''[object Object]''"

section \<open>The comment tree: \<^verbatim>\<open>formatApiComments\<close>\<close>




















section \<open>Description cleaning: \<^verbatim>\<open>cleanDescriptionText\<close>\<close>

text \<open>
  The class \<open>\s\<close> of a regular expression, which is also the set \<open>trim()\<close> strips, and
  the line terminators after which \<open>^\<close> matches under the flag \<open>m\<close> (below 256: tab,
  LF, VT, FF, CR, space and U+00A0; LF and CR).
\<close>

definition is_space :: "char \<Rightarrow> bool" where
  "is_space c = (c \<in> set [CHR 0x09, CHR 0x0A, CHR 0x0B, CHR 0x0C, CHR 0x0D, CHR '' '', CHR 0xA0])"

definition is_line_terminator :: "char \<Rightarrow> bool" where
  "is_line_terminator c = (c = CHR 0x0A \<or> c = CHR 0x0D)"

text \<open>
  \<open>text.replace(/re/g, r)\<close>. A matcher stands for one regular expression: told whether the
  position is at the start of a line, and given the text from the position on, it yields
  the replacement and the number of characters matched there (at least one, for each of
  the four expressions). The scan goes from left to right: where the expression matches,
  the replacement is emitted and the scan goes on behind the match, elsewhere the
  character is copied.
\<close>

type_synonym matcher = "bool \<Rightarrow> string \<Rightarrow> (string \<times> nat) option"

fun js_replace :: "matcher \<Rightarrow> bool \<Rightarrow> string \<Rightarrow> string" where
  "js_replace m bol [] = []"
| "js_replace m bol (c # cs) =
     (case m bol (c # cs) of
        None \<Rightarrow> c # js_replace m (is_line_terminator c) cs
      | Some (r, n) \<Rightarrow>
          r @ js_replace m (is_line_terminator ((c # cs) ! (n - 1))) (drop (n - 1) cs))"

text \<open>\<open>/<[^>]*>/\<close>, replaced by the empty string.\<close>

definition tag_at :: matcher where
  "tag_at bol s =
     (case s of
        [] \<Rightarrow> None
      | c # cs \<Rightarrow>
          if c = CHR ''<'' \<and> CHR ''>'' \<in> set cs
          then Some ([], length (takeWhile (\<lambda>x. x \<noteq> CHR ''>'') cs) + 2)
          else None)"

text \<open>\<open>/\[([^\]]+)\]\([^)]+\)/\<close>, replaced by \<open>$1\<close>.\<close>

definition link_at :: matcher where
  "link_at bol s =
     (case s of
        [] \<Rightarrow> None
      | c # cs \<Rightarrow>
          (let txt = takeWhile (\<lambda>x. x \<noteq> CHR '']'') cs;
               rest = drop (length txt) cs;
               url = takeWhile (\<lambda>x. x \<noteq> CHR '')'') (drop 2 rest)
           in if c = CHR ''['' \<and> txt \<noteq> [] \<and> take 2 rest = ''](''
                 \<and> url \<noteq> [] \<and> CHR '')'' \<in> set (drop 2 rest)
              then Some (txt, length txt + length url + 4)
              else None))"

text \<open>
  \<open>/^#+\s*|---|\*\*|__|\*|_/m\<close>, replaced by the empty string: the alternatives are tried
  in this order, and \<open>^\<close> belongs to the first one only.
\<close>

definition marker_at :: matcher where
  "marker_at bol s =
     (if bol \<and> take 1 s = ''#'' then
        (let hashes = takeWhile (\<lambda>x. x = CHR ''#'') s
         in Some ([], length hashes + length (takeWhile is_space (drop (length hashes) s))))
      else if take 3 s = ''---'' then Some ([], 3)
      else if take 2 s = ''**'' then Some ([], 2)
      else if take 2 s = ''__'' then Some ([], 2)
      else if take 1 s = ''*'' then Some ([], 1)
      else if take 1 s = ''_'' then Some ([], 1)
      else None)"

text \<open>\<open>/\s\s+/\<close>, replaced by one space.\<close>

definition spaces_at :: matcher where
  "spaces_at bol s =
     (let n = length (takeWhile is_space s)
      in if 2 \<le> n then Some ('' '', n) else None)"

definition js_trim :: "string \<Rightarrow> string" where
  "js_trim s = rev (dropWhile is_space (rev (dropWhile is_space s)))"

text \<open>The four replacements and the trim, on a string.\<close>

definition clean_string :: "string \<Rightarrow> string" where
  "clean_string s = js_trim (js_replace spaces_at True (js_replace marker_at True
      (js_replace link_at True (js_replace tag_at True s))))"

text \<open>
  \<open>cleanDescriptionText(text)\<close>: a falsy argument gives the empty string; a truthy value
  that is not a string has no method \<open>replace\<close>, and the call throws.
\<close>

definition cleanDescriptionText :: "json \<Rightarrow> error + string" where
  "cleanDescriptionText text =
     (if \<not> truthy text then Inr []
      else case text of
             JStr s \<Rightarrow> Inr (clean_string s)
           | _ \<Rightarrow> Inl TypeError)"






section \<open>The post mapping of \<^verbatim>\<open>getSubredditPosts\<close>\<close>

text \<open>The derived post type (\<open>post\<close> is \<open>postWrapper.data\<close>; reading a flag of a nullish \<open>post\<close> throws).\<close>

definition post_type :: "json \<Rightarrow> error + string" where
  "post_type post =
     (if nullish post then Inl TypeError
      else Inr
        (if truthy (js_get post ''is_video'') then ''video''
         else if truthy (js_get post ''is_gallery'') then ''gallery''
         else if truthy (js_get post ''is_self'') then ''text''
         else if js_get post ''post_hint'' = JStr ''image'' then ''image''
         else if js_get post ''post_hint'' = JStr ''link'' then ''link''
         else ''link''))"

text \<open>
  \<open>Object.keys(o).map(k => o[k])\<close> with the keys: the own properties of an object, the
  array indices first in ascending order, then the other keys in insertion order; the
  elements of an array; the characters of a string; nothing for a number or a boolean.
\<close>

fun own_properties :: "(string \<times> json) list \<Rightarrow> (string \<times> json) list" where
  "own_properties [] = []"
| "own_properties ((k, v) # kvs) = (k, v) # own_properties (filter (\<lambda>p. fst p \<noteq> k) kvs)"

definition is_digit :: "char \<Rightarrow> bool" where
  "is_digit c = (c \<in> set ''0123456789'')"

definition digit_value :: "char \<Rightarrow> int" where
  "digit_value c = int (length (takeWhile (\<lambda>d. d \<noteq> c) ''0123456789''))"

definition index_value :: "string \<Rightarrow> int" where
  "index_value k = foldl (\<lambda>n c. 10 * n + digit_value c) 0 k"

definition is_array_index :: "string \<Rightarrow> bool" where
  "is_array_index k =
     (k \<noteq> [] \<and> list_all is_digit k \<and> (k = ''0'' \<or> take 1 k \<noteq> ''0'') \<and> index_value k < 4294967295)"

definition object_entries :: "json \<Rightarrow> (string \<times> json) list" where
  "object_entries v =
     (case v of
        JObj kvs \<Rightarrow>
          sort_key (\<lambda>p. index_value (fst p)) (filter (\<lambda>p. is_array_index (fst p)) (own_properties kvs))
          @ filter (\<lambda>p. \<not> is_array_index (fst p)) (own_properties kvs)
      | JArr xs \<Rightarrow> zip (map digits [0..<length xs]) xs
      | JStr s \<Rightarrow> zip (map digits [0..<length s]) (map (\<lambda>c. JStr [c]) s)
      | _ \<Rightarrow> [])"

text \<open>\<open>s.split(d)\<close> for a separator of one character.\<close>

fun js_split :: "char \<Rightarrow> string \<Rightarrow> string list" where
  "js_split d [] = [[]]"
| "js_split d (c # cs) =
     (if c = d then [] # js_split d cs
      else (case js_split d cs of
              seg # segs \<Rightarrow> (c # seg) # segs
            | [] \<Rightarrow> [[c]]))"

text \<open>
  \<open>item.m?.split('/')[1] || 'jpg'\<close>: a nullish \<open>m\<close> ends the optional chain, a string is
  split, and any other value has no method \<open>split\<close>.
\<close>

definition image_format :: "json \<Rightarrow> error + string" where
  "image_format m =
     (if nullish m then Inr ''jpg''
      else case m of
             JStr s \<Rightarrow>
               (case js_split CHR ''/'' s of
                  a # b # rest \<Rightarrow> Inr (if b \<noteq> [] then b else ''jpg'')
                | _ \<Rightarrow> Inr ''jpg'')
           | _ \<Rightarrow> Inl TypeError)"

text \<open>The callback over the entries of \<open>post.media_metadata\<close>: a URL, or \<open>null\<close>.\<close>

definition gallery_url :: "json \<Rightarrow> error + json" where
  "gallery_url item =
     (if nullish item then Inl TypeError
      else if js_get item ''status'' = JStr ''valid'' \<and> js_get item ''e'' = JStr ''Image'' then
        (case image_format (js_get item ''m'') of
           Inl e \<Rightarrow> Inl e
         | Inr format \<Rightarrow>
             Inr (JStr (''https://i.redd.it/'' @ js_to_string (js_get item ''id'') @ ''.'' @ format)))
      else Inr JNull)"

text \<open>\<open>xs.map(f)\<close> for a callback that may throw: the first exception ends the call.\<close>

fun map_result :: "('a \<Rightarrow> error + 'b) \<Rightarrow> 'a list \<Rightarrow> error + 'b list" where
  "map_result f [] = Inr []"
| "map_result f (x # xs) =
     (case f x of
        Inl e \<Rightarrow> Inl e
      | Inr y \<Rightarrow> (case map_result f xs of Inl e \<Rightarrow> Inl e | Inr ys \<Rightarrow> Inr (y # ys)))"

text \<open>The field \<open>gallery_urls\<close> of a mapped post: \<open>null\<close>, or the array of URLs.\<close>

definition gallery_urls :: "json \<Rightarrow> error + json" where
  "gallery_urls post =
     (if nullish post then Inl TypeError
      else if truthy (js_get post ''is_gallery'') \<and> truthy (js_get post ''media_metadata'') then
        (case map_result gallery_url (map snd (object_entries (js_get post ''media_metadata''))) of
           Inl e \<Rightarrow> Inl e
         | Inr urls \<Rightarrow> Inr (JArr (filter (\<lambda>url. url \<noteq> JNull) urls)))
      else Inr JNull)"

text \<open>A post that sets the given flags, all at once, and hints at an image.\<close>

definition ambiguous_post :: "string list \<Rightarrow> json" where
  "ambiguous_post flags =
     JObj (map (\<lambda>k. (k, JBool True)) flags @ [(''post_hint'', JStr ''image'')])"

text \<open>
  What the gallery claim speaks of: an entry that is a valid image, the extension of an
  entry (the text between the first and the second slash of its MIME type, \<open>jpg\<close> when
  that is empty or the type is absent), the URL of an entry, and the entries the callback
  accepts (an entry is not nullish, and its \<open>m\<close> is absent or a string).
\<close>

definition valid_image :: "json \<Rightarrow> bool" where
  "valid_image item = (js_get item ''status'' = JStr ''valid'' \<and> js_get item ''e'' = JStr ''Image'')"

definition mime_subtype :: "string \<Rightarrow> string" where
  "mime_subtype s = takeWhile (\<lambda>c. c \<noteq> CHR ''/'') (drop 1 (dropWhile (\<lambda>c. c \<noteq> CHR ''/'') s))"

definition extension_of :: "json \<Rightarrow> string" where
  "extension_of item =
     (case js_get item ''m'' of
        JStr s \<Rightarrow> if mime_subtype s = [] then ''jpg'' else mime_subtype s
      | _ \<Rightarrow> ''jpg'')"

definition url_of :: "json \<Rightarrow> json" where
  "url_of item = JStr (''https://i.redd.it/'' @ js_to_string (js_get item ''id'') @ ''.'' @ extension_of item)"

definition entry_ok :: "json \<Rightarrow> bool" where
  "entry_ok item =
     (\<not> nullish item \<and> (nullish (js_get item ''m'') \<or> (\<exists>s. js_get item ''m'' = JStr s)))"

text \<open>A gallery of two valid images and one entry that failed.\<close>

definition example_gallery :: json where
  "example_gallery = JObj [(''is_gallery'', JBool True), (''media_metadata'', JObj
     [(''abc'', JObj [(''status'', JStr ''valid''), (''e'', JStr ''Image''), (''m'', JStr ''image/png''), (''id'', JStr ''abc'')]),
      (''x12'', JObj [(''status'', JStr ''failed''), (''e'', JStr ''Image''), (''m'', JStr ''image/png''), (''id'', JStr ''x12'')]),
      (''q7'', JObj [(''status'', JStr ''valid''), (''e'', JStr ''Image''), (''id'', JStr ''q7'')])])]"

section \<open>The token manager of \<^verbatim>\<open>redditService.js\<close>\<close>

text \<open>
  The module variables. \<open>tokenExpiry\<close> is \<open>null\<close> or a number of milliseconds; the code
  only tests it for truthiness and compares it with \<open>Date.now()\<close>, so \<open>None\<close> stands for
  \<open>null\<close> and for \<open>NaN\<close> alike.
\<close>

record service_state =
  accessToken :: json
  tokenExpiry :: "int option"
  isFetchingToken :: bool
  lastRequestTime :: int

definition initial_state :: service_state where
  "initial_state = \<lparr>accessToken = JNull, tokenExpiry = None, isFetchingToken = False, lastRequestTime = 0\<rparr>"

text \<open>
  \<open>getAppOnlyToken\<close> is an \<open>async\<close> function: it runs without interruption up to an
  \<open>await\<close>, and other callers run while it is suspended. It has one of two suspensions,
  the timer of 1000 ms or the POST to the token endpoint, and so three uninterrupted
  segments: from the call to the \<open>await\<close>, from the timer to the \<open>return\<close>, and from the
  settled POST to the \<open>return\<close> or \<open>throw\<close>.
\<close>

datatype awaiting = Sleeping | Posting

text \<open>
  How \<open>axios.post\<close> settles: rejected (a network error or a status outside 2xx) with an
  error of the given \<open>message\<close>, or resolved with a response of the given \<open>data\<close>.
\<close>

datatype post_outcome = Rejected string | Resolved json

datatype completion = Returned json | Threw error

definition getAppOnlyToken_enter :: "service_state \<Rightarrow> awaiting \<times> service_state" where
  "getAppOnlyToken_enter st =
     (if isFetchingToken st then (Sleeping, st)
      else (Posting, st\<lparr>isFetchingToken := True\<rparr>))"

definition getAppOnlyToken_after_sleep :: "service_state \<Rightarrow> completion \<times> service_state" where
  "getAppOnlyToken_after_sleep st = (Returned (accessToken st), st)"

text \<open>
  \<open>Date.now() + (response.data.expires_in - 60) * 1000\<close>. The endpoint reports
  \<open>expires_in\<close> as a number. The subtraction converts another value to a number:
  \<open>undefined\<close> gives \<open>NaN\<close>, \<open>null\<close> gives 0, a boolean 0 or 1, a string of decimal
  digits its value (the empty string 0). The conversion of a string in another form, of an
  array and of an object is not modelled: such a value is recorded as \<open>NaN\<close>.
\<close>

definition to_number :: "json \<Rightarrow> int option" where
  "to_number v =
     (case v of
        JNum n \<Rightarrow> Some n
      | JNull \<Rightarrow> Some 0
      | JBool b \<Rightarrow> Some (if b then 1 else 0)
      | JStr s \<Rightarrow> if list_all is_digit s then Some (index_value s) else None
      | _ \<Rightarrow> None)"

definition token_expiry :: "int \<Rightarrow> json \<Rightarrow> int option" where
  "token_expiry now expires_in =
     (case to_number expires_in of
        Some n \<Rightarrow> Some (now + (n - 60) * 1000)
      | None \<Rightarrow> None)"

text \<open>The \<open>catch\<close> block.\<close>

definition token_failed :: "string \<Rightarrow> service_state \<Rightarrow> completion \<times> service_state" where
  "token_failed message st =
     (Threw (Error (''Failed to obtain Reddit access token. Check credentials and Reddit status. '' @ message)),
      st\<lparr>accessToken := JNull, tokenExpiry := None, isFetchingToken := False\<rparr>)"

definition getAppOnlyToken_after_post :: "int \<Rightarrow> post_outcome \<Rightarrow> service_state \<Rightarrow> completion \<times> service_state" where
  "getAppOnlyToken_after_post now outcome st =
     (case outcome of
        Rejected message \<Rightarrow> token_failed message st
      | Resolved data \<Rightarrow>
          if truthy data \<and> truthy (js_get data ''access_token'') then
            (Returned (js_get data ''access_token''),
             st\<lparr>accessToken := js_get data ''access_token'',
                tokenExpiry := token_expiry now (js_get data ''expires_in''),
                isFetchingToken := False\<rparr>)
          else token_failed ''Invalid response received from Reddit token endpoint'' st)"

definition isTokenValid :: "int \<Rightarrow> service_state \<Rightarrow> bool" where
  "isTokenValid now st =
     (truthy (accessToken st) \<and>
      (case tokenExpiry st of None \<Rightarrow> False | Some expiry \<Rightarrow> expiry \<noteq> 0 \<and> now < expiry))"

text \<open>
  Concurrent callers. An event is a caller invoking \<open>getAppOnlyToken\<close>, the timer of a
  sleeping caller firing, or the POST of a caller settling; each carries the value of
  \<open>Date.now()\<close> at that moment. The world holds the module variables, the time of the last
  event, the suspended callers (with the suspension and the time of the call), the
  completed calls in order of completion, and the number of POSTs sent so far. An event
  that cannot happen in the state (time running backwards, a timer before its 1000 ms, a
  caller that is not suspended so) gives \<open>None\<close>.
\<close>

datatype event = Call nat int | Timer nat int | Reply nat int post_outcome

record token_world =
  service :: service_state
  clock :: int
  waiting :: "(nat \<times> awaiting \<times> int) list"
  finished :: "(nat \<times> completion) list"
  exchanges :: nat

definition settle :: "nat \<Rightarrow> int \<Rightarrow> completion \<times> service_state \<Rightarrow> token_world \<Rightarrow> token_world" where
  "settle c now res r =
     r\<lparr>service := snd res, clock := now,
       waiting := filter (\<lambda>e. fst e \<noteq> c) (waiting r),
       finished := finished r @ [(c, fst res)]\<rparr>"

fun token_step :: "event \<Rightarrow> token_world \<Rightarrow> token_world option" where
  "token_step (Call c now) r =
     (if now < clock r \<or> c \<in> fst ` set (waiting r) \<or> c \<in> fst ` set (finished r) then None
      else Some (r\<lparr>service := snd (getAppOnlyToken_enter (service r)), clock := now,
                   waiting := waiting r @ [(c, fst (getAppOnlyToken_enter (service r)), now)],
                   exchanges := exchanges r +
                     (if fst (getAppOnlyToken_enter (service r)) = Posting then 1 else 0)\<rparr>))"
| "token_step (Timer c now) r =
     (case map_of (waiting r) c of
        Some (Sleeping, since) \<Rightarrow>
          if now < clock r \<or> now < since + 1000 then None
          else Some (settle c now (getAppOnlyToken_after_sleep (service r)) r)
      | _ \<Rightarrow> None)"
| "token_step (Reply c now outcome) r =
     (case map_of (waiting r) c of
        Some (Posting, since) \<Rightarrow>
          if now < clock r then None
          else Some (settle c now (getAppOnlyToken_after_post now outcome (service r)) r)
      | _ \<Rightarrow> None)"

fun token_run :: "event list \<Rightarrow> token_world \<Rightarrow> token_world option" where
  "token_run [] r = Some r"
| "token_run (ev # evs) r = (case token_step ev r of None \<Rightarrow> None | Some r' \<Rightarrow> token_run evs r')"

text \<open>No call under way, and the exchanges in flight.\<close>

definition idle :: "service_state \<Rightarrow> token_world" where
  "idle st = \<lparr>service = st, clock = 0, waiting = [], finished = [], exchanges = 0\<rparr>"

definition in_flight :: "token_world \<Rightarrow> nat" where
  "in_flight r = length (filter (\<lambda>e. fst (snd e) = Posting) (waiting r))"

text \<open>
  A failed exchange: the POST was rejected, or the body of the response is falsy or has
  no truthy \<open>access_token\<close>.
\<close>

definition exchange_failed :: "post_outcome \<Rightarrow> bool" where
  "exchange_failed outcome =
     (case outcome of
        Rejected message \<Rightarrow> True
      | Resolved data \<Rightarrow> \<not> truthy data \<or> \<not> truthy (js_get data ''access_token''))"

text \<open>
  What describes the failure: \<open>error.message\<close> of the rejection, or the message of the
  error the \<open>try\<close> block throws for a response without a token.
\<close>

definition failure_message :: "post_outcome \<Rightarrow> string" where
  "failure_message outcome =
     (case outcome of
        Rejected message \<Rightarrow> message
      | Resolved data \<Rightarrow> ''Invalid response received from Reddit token endpoint'')"

text \<open>A manager that holds an expired credential, and the world after one caller has sent the POST.\<close>

definition stale_state :: service_state where
  "stale_state = \<lparr>accessToken = JStr ''old'', tokenExpiry = Some 4000, isFetchingToken = False, lastRequestTime = 0\<rparr>"

definition stale_posting :: token_world where
  "stale_posting = \<lparr>service = stale_state\<lparr>isFetchingToken := True\<rparr>, clock = 5000,
     waiting = [(0, Posting, 5000)], finished = [], exchanges = 1\<rparr>"

text \<open>
  The state of the flag and of the suspended callers that every run keeps: callers are
  suspended once, and an exchange is in flight exactly while \<open>isFetchingToken\<close> is set.
\<close>

definition single_flight :: "token_world \<Rightarrow> bool" where
  "single_flight r =
     (distinct (map fst (waiting r))
      \<and> in_flight r = (if isFetchingToken (service r) then 1 else 0))"

text \<open>
  Three runs from the initial state. Three callers arrive within 20 ms. Two callers
  arrive, and the exchange of the first fails (status 401) before the timer of the second
  fires. Two callers arrive, and the exchange of the first takes 1500 ms and succeeds.
\<close>

definition three_callers :: "event list" where
  "three_callers = [Call 0 5000, Call 1 5010, Call 2 5020]"

definition failed_exchange_run :: "event list" where
  "failed_exchange_run =
     [Call 0 5000, Call 1 5010, Reply 0 5300 (Rejected ''Request failed with status code 401''), Timer 1 6010]"

definition slow_exchange_run :: "event list" where
  "slow_exchange_run =
     [Call 0 5000, Call 1 5010, Timer 1 6010,
      Reply 0 6500 (Resolved (JObj [(''access_token'', JStr ''tok''), (''expires_in'', JNum 3600)]))]"

section \<open>Pacing: the request interceptor\<close>

text \<open>
  The first step of the interceptor: the delay it awaits, if any
  (\<open>BASE_REQUEST_DELAY_MS - timeSinceLastRequest\<close>), and the assignment
  \<open>lastRequestTime = Date.now()\<close> that follows the wait.
\<close>

definition BASE_REQUEST_DELAY_MS :: int where
  "BASE_REQUEST_DELAY_MS = 1100"

definition pacing_delay :: "int \<Rightarrow> service_state \<Rightarrow> int option" where
  "pacing_delay now st =
     (if now - lastRequestTime st < BASE_REQUEST_DELAY_MS
      then Some (BASE_REQUEST_DELAY_MS - (now - lastRequestTime st))
      else None)"

definition stamp :: "int \<Rightarrow> service_state \<Rightarrow> service_state" where
  "stamp now st = st\<lparr>lastRequestTime := now\<rparr>"

text \<open>
  Concurrent requests. A request enters the interceptor at a time, and either goes on at
  once or sleeps; a sleeping request wakes when its timer has run (not before the time
  due). A request is dispatched when it assigns \<open>lastRequestTime\<close>; the world logs the
  dispatches in order, with their times.
\<close>

datatype pacing_event = Enter nat int | Wake nat int

record pacing_world =
  pservice :: service_state
  pclock :: int
  sleeping :: "(nat \<times> int) list"
  dispatched :: "(nat \<times> int) list"

fun pacing_step :: "pacing_event \<Rightarrow> pacing_world \<Rightarrow> pacing_world option" where
  "pacing_step (Enter c now) r =
     (if now < pclock r \<or> c \<in> fst ` set (sleeping r) then None
      else (case pacing_delay now (pservice r) of
              Some delay \<Rightarrow> Some (r\<lparr>pclock := now, sleeping := sleeping r @ [(c, now + delay)]\<rparr>)
            | None \<Rightarrow>
                Some (r\<lparr>pservice := stamp now (pservice r), pclock := now,
                        dispatched := dispatched r @ [(c, now)]\<rparr>)))"
| "pacing_step (Wake c now) r =
     (case map_of (sleeping r) c of
        Some due \<Rightarrow>
          if now < pclock r \<or> now < due then None
          else Some (r\<lparr>pservice := stamp now (pservice r), pclock := now,
                       sleeping := filter (\<lambda>e. fst e \<noteq> c) (sleeping r),
                       dispatched := dispatched r @ [(c, now)]\<rparr>)
      | None \<Rightarrow> None)"

fun pacing_run :: "pacing_event list \<Rightarrow> pacing_world \<Rightarrow> pacing_world option" where
  "pacing_run [] r = Some r"
| "pacing_run (ev # evs) r = (case pacing_step ev r of None \<Rightarrow> None | Some r' \<Rightarrow> pacing_run evs r')"

definition pacing_idle :: "service_state \<Rightarrow> pacing_world" where
  "pacing_idle st = \<lparr>pservice = st, pclock = 0, sleeping = [], dispatched = []\<rparr>"

text \<open>
  A request at 5000 ms, and two requests that enter the interceptor together 100 ms later
  (as the two calls under \<open>Promise.all\<close> in \<open>getSubredditAbout\<close> do); each of the two
  sleeps its 1000 ms.
\<close>

definition overlapping_requests :: "pacing_event list" where
  "overlapping_requests = [Enter 0 5000, Enter 1 5100, Enter 2 5100, Wake 1 6100, Wake 2 6100]"

section \<open>The retry configuration\<close>

text \<open>
  What the retry condition reads of an error: the status of \<open>error.response\<close>, if there is
  a response, \<open>error.code\<close> and the method of the request.
\<close>

datatype axios_error = AxiosError (response_status: "nat option") (error_code: "string option") (request_method: string)

definition RETRY_COUNT :: nat where
  "RETRY_COUNT = 3"

text \<open>\<open>Math.pow(2, retryCount - 1) * 1000\<close>, in milliseconds.\<close>

definition retryDelay :: "nat \<Rightarrow> int" where
  "retryDelay retryCount = (if retryCount = 0 then 500 else 2 ^ (retryCount - 1) * 1000)"

text \<open>
  \<open>error.response?.status === 429 || axiosRetry.isNetworkOrIdempotentRequestError(error)\<close>.
  The predicate of the package axios-retry is a parameter.
\<close>

definition retryCondition :: "(axios_error \<Rightarrow> bool) \<Rightarrow> axios_error \<Rightarrow> bool" where
  "retryCondition isNetworkOrIdempotentRequestError err =
     (response_status err = Some 429 \<or> isNetworkOrIdempotentRequestError err)"

datatype 'a attempt = Succeeded 'a | Failed axios_error

text \<open>
  Modelled from the spec: the retry loop of the package axios-retry, which is a dependency
  and not under \<^verbatim>\<open>src/\<close>. Section 4.2 of the spec: a failed call is retried when the
  retry condition holds and the maximum of retry attempts is not reached, after the delay
  of that attempt; after exhausting retries, the last error is surfaced to the caller.
  \<open>attempts k\<close> is how the call goes after \<open>k\<close> retries; the result comes with the delays
  that were awaited, in order.
\<close>

fun retry_from :: "(axios_error \<Rightarrow> bool) \<Rightarrow> (nat \<Rightarrow> 'a attempt) \<Rightarrow> nat \<Rightarrow> nat \<Rightarrow> 'a attempt \<times> int list" where
  "retry_from lib attempts 0 retryCount = (attempts retryCount, [])"
| "retry_from lib attempts (Suc remaining) retryCount =
     (case attempts retryCount of
        Succeeded x \<Rightarrow> (Succeeded x, [])
      | Failed err \<Rightarrow>
          if retryCondition lib err then
            (case retry_from lib attempts remaining (Suc retryCount) of
               (res, delays) \<Rightarrow> (res, retryDelay (Suc retryCount) # delays))
          else (Failed err, []))"

definition dispatch :: "(axios_error \<Rightarrow> bool) \<Rightarrow> (nat \<Rightarrow> 'a attempt) \<Rightarrow> 'a attempt \<times> int list" where
  "dispatch lib attempts = retry_from lib attempts RETRY_COUNT 0"

text \<open>An attempt after which the loop retries, if retries remain.\<close>

definition retryable :: "(axios_error \<Rightarrow> bool) \<Rightarrow> 'a attempt \<Rightarrow> bool" where
  "retryable lib a = (case a of Succeeded x \<Rightarrow> False | Failed err \<Rightarrow> retryCondition lib err)"

text \<open>
  A stand-in for the predicate of the package (an error without a response), and a call
  that fails with the same status at every attempt.
\<close>

definition no_response :: "axios_error \<Rightarrow> bool" where
  "no_response err = (response_status err = None)"

definition always_status :: "nat \<Rightarrow> nat \<Rightarrow> unit attempt" where
  "always_status s k = Failed (AxiosError (Some s) (Some ''ERR_BAD_REQUEST'') ''get'')"

chapter \<open>Properties\<close>

section \<open>The comment tree\<close>









section \<open>Description cleaning\<close>

text \<open>
  C10. For \<open>null\<close>, \<open>undefined\<close> and the empty string \<open>cleanDescriptionText\<close> returns the
  empty string, and for every string it returns a string: no input that is a string or
  absent makes it throw.
\<close>

theorem cleanDescriptionText_absent:
  "cleanDescriptionText JNull = Inr []
   \<and> cleanDescriptionText JUndefined = Inr []
   \<and> cleanDescriptionText (JStr []) = Inr []
   \<and> (\<forall>s. cleanDescriptionText (JStr s) = Inr (clean_string s))"
proof -
  have "clean_string [] = []"
    by (simp add: clean_string_def js_trim_def)
  then have "cleanDescriptionText (JStr s) = Inr (clean_string s)" for s
    by (cases s) (simp_all add: cleanDescriptionText_def)
  then show ?thesis
    by (simp add: cleanDescriptionText_def)
qed

subsection \<open>What the replacements leave\<close>























































section \<open>The post mapping\<close>

text \<open>
  C6. The post type is decided by the first check that matches, in the order: the video
  flag, the gallery flag, the self-post flag, the hint \<open>image\<close>; when none matches (the
  hint \<open>link\<close> included) the type is \<open>link\<close>.
\<close>

theorem post_type_precedence:
  assumes "\<not> nullish post"
  shows "(truthy (js_get post ''is_video'') \<longrightarrow> post_type post = Inr ''video'')
    \<and> (\<not> truthy (js_get post ''is_video'') \<and> truthy (js_get post ''is_gallery'')
         \<longrightarrow> post_type post = Inr ''gallery'')
    \<and> (\<not> truthy (js_get post ''is_video'') \<and> \<not> truthy (js_get post ''is_gallery'')
         \<and> truthy (js_get post ''is_self'')
         \<longrightarrow> post_type post = Inr ''text'')
    \<and> (\<not> truthy (js_get post ''is_video'') \<and> \<not> truthy (js_get post ''is_gallery'')
         \<and> \<not> truthy (js_get post ''is_self'') \<and> js_get post ''post_hint'' = JStr ''image''
         \<longrightarrow> post_type post = Inr ''image'')
    \<and> (\<not> truthy (js_get post ''is_video'') \<and> \<not> truthy (js_get post ''is_gallery'')
         \<and> \<not> truthy (js_get post ''is_self'') \<and> js_get post ''post_hint'' \<noteq> JStr ''image''
         \<longrightarrow> post_type post = Inr ''link'')"
  using assms by (simp add: post_type_def)

theorem post_type_precedence_witness:
  "post_type (ambiguous_post [''is_self'', ''is_gallery'', ''is_video'']) = Inr ''video''
   \<and> post_type (ambiguous_post [''is_self'', ''is_gallery'']) = Inr ''gallery''
   \<and> post_type (ambiguous_post [''is_self'']) = Inr ''text''
   \<and> post_type (ambiguous_post []) = Inr ''image''
   \<and> post_type (JObj [(''post_hint'', JStr ''rich:video'')]) = Inr ''link''"
  using post_type_precedence[of "ambiguous_post [''is_self'', ''is_gallery'', ''is_video'']"]
    post_type_precedence[of "ambiguous_post [''is_self'', ''is_gallery'']"]
    post_type_precedence[of "ambiguous_post [''is_self'']"]
    post_type_precedence[of "ambiguous_post []"]
    post_type_precedence[of "JObj [(''post_hint'', JStr ''rich:video'')]"]
  by (simp add: ambiguous_post_def)

section \<open>The token manager\<close>

lemma failed_exchange_result:
  assumes "exchange_failed outcome"
  shows "getAppOnlyToken_after_post now outcome st =
           (Threw (Error (''Failed to obtain Reddit access token. Check credentials and Reddit status. ''
              @ failure_message outcome)),
            st\<lparr>accessToken := JNull, tokenExpiry := None, isFetchingToken := False\<rparr>)"
  using assms
  by (cases outcome)
    (auto simp: exchange_failed_def failure_message_def getAppOnlyToken_after_post_def token_failed_def)

text \<open>
  C7. When the POST of a caller settles as a failed exchange, the manager holds no token
  afterwards, whatever it held before (\<open>accessToken\<close> and \<open>tokenExpiry\<close> are \<open>null\<close>),
  the call of that caller ends by throwing the error that describes the failure (the
  fixed prefix followed by the message of the rejection, or by the text for a response
  without a token), and no further POST is sent.
\<close>

theorem token_failure_clears:
  assumes "exchange_failed outcome"
    and "token_step (Reply c now outcome) r = Some r'"
  shows "accessToken (service r') = JNull
    \<and> tokenExpiry (service r') = None
    \<and> \<not> isFetchingToken (service r')
    \<and> finished r' = finished r @
          [(c, Threw (Error (''Failed to obtain Reddit access token. Check credentials and Reddit status. ''
                 @ failure_message outcome)))]
    \<and> exchanges r' = exchanges r"
proof -
  note m = failed_exchange_result[OF assms(1), of now "service r"]
  from assms(2) have r': "r' = settle c now (getAppOnlyToken_after_post now outcome (service r)) r"
    by (auto split: option.splits awaiting.splits if_splits)
  show ?thesis
    unfolding r' m by (simp add: settle_def)
qed

theorem token_failure_clears_witness:
  "token_run [Call 0 5000] (idle stale_state) = Some stale_posting
   \<and> exchange_failed (Rejected ''Request failed with status code 401'')
   \<and> token_step (Reply 0 5200 (Rejected ''Request failed with status code 401'')) stale_posting =
       Some \<lparr>service = initial_state, clock = 5200, waiting = [],
         finished = [(0, Threw (Error ''Failed to obtain Reddit access token. Check credentials and Reddit status. Request failed with status code 401''))],
         exchanges = 1\<rparr>
   \<and> exchange_failed (Resolved (JObj [(''error'', JNum 401)]))
   \<and> token_step (Reply 0 5200 (Resolved (JObj [(''error'', JNum 401)]))) stale_posting =
       Some \<lparr>service = initial_state, clock = 5200, waiting = [],
         finished = [(0, Threw (Error ''Failed to obtain Reddit access token. Check credentials and Reddit status. Invalid response received from Reddit token endpoint''))],
         exchanges = 1\<rparr>"
proof -
  have f: "exchange_failed (Rejected ''Request failed with status code 401'')"
    by (simp add: exchange_failed_def)
  have s: "token_step (Reply 0 5200 (Rejected ''Request failed with status code 401'')) stale_posting =
       Some \<lparr>service = initial_state, clock = 5200, waiting = [],
         finished = [(0, Threw (Error ''Failed to obtain Reddit access token. Check credentials and Reddit status. Request failed with status code 401''))],
         exchanges = 1\<rparr>"
    by (simp add: stale_posting_def stale_state_def initial_state_def settle_def
        getAppOnlyToken_after_post_def token_failed_def)
  have g: "exchange_failed (Resolved (JObj [(''error'', JNum 401)]))"
    by (simp add: exchange_failed_def)
  have t: "token_step (Reply 0 5200 (Resolved (JObj [(''error'', JNum 401)]))) stale_posting =
       Some \<lparr>service = initial_state, clock = 5200, waiting = [],
         finished = [(0, Threw (Error ''Failed to obtain Reddit access token. Check credentials and Reddit status. Invalid response received from Reddit token endpoint''))],
         exchanges = 1\<rparr>"
    by (simp add: stale_posting_def stale_state_def initial_state_def settle_def
        getAppOnlyToken_after_post_def token_failed_def)
  have "token_run [Call 0 5000] (idle stale_state) = Some stale_posting"
    by (simp add: idle_def stale_posting_def stale_state_def getAppOnlyToken_enter_def)
  then show ?thesis
    using f s g t token_failure_clears[OF f s, THEN conjunct1] token_failure_clears[OF g t, THEN conjunct1]
    by simp
qed

section \<open>The gallery URLs\<close>

lemma js_split_nonempty: "js_split d s \<noteq> []"
  by (induction s) (auto split: list.splits)

lemma js_split_hd: "hd (js_split d s) = takeWhile (\<lambda>c. c \<noteq> d) s"
  by (induction s) (auto split: list.splits simp: js_split_nonempty)

lemma js_split_tl:
  "tl (js_split d s) = (if d \<in> set s then js_split d (drop 1 (dropWhile (\<lambda>c. c \<noteq> d) s)) else [])"
  by (induction s) (auto split: list.splits)

lemma js_split_second:
  "(case js_split d s of a # b # rest \<Rightarrow> Inr (if b \<noteq> [] then b else dflt) | _ \<Rightarrow> Inr dflt)
   = (Inr (let sub = takeWhile (\<lambda>c. c \<noteq> d) (drop 1 (dropWhile (\<lambda>c. c \<noteq> d) s))
          in if sub = [] then dflt else sub) :: error + string)"
proof (cases "d \<in> set s")
  case True
  obtain a t where at: "js_split d s = a # t"
    using js_split_nonempty[of d s] by (cases "js_split d s") auto
  let ?r = "drop 1 (dropWhile (\<lambda>c. c \<noteq> d) s)"
  have t: "t = js_split d ?r"
    using js_split_tl[of d s] at True by simp
  obtain b u where bu: "js_split d ?r = b # u"
    using js_split_nonempty[of d ?r] by (cases "js_split d ?r") auto
  have "b = takeWhile (\<lambda>c. c \<noteq> d) ?r"
    using js_split_hd[of d ?r] bu by simp
  then show ?thesis
    using at t bu by (simp add: Let_def)
next
  case False
  have "tl (js_split d s) = []"
    using js_split_tl[of d s] False by simp
  have dw: "dropWhile (\<lambda>c. c \<noteq> d) s = []"
    using False by (auto simp: dropWhile_eq_Nil_conv)
  have "takeWhile (\<lambda>c. c \<noteq> d) (drop 1 (dropWhile (\<lambda>c. c \<noteq> d) s)) = []"
    unfolding dw by simp
  with \<open>tl (js_split d s) = []\<close> show ?thesis
    using js_split_nonempty[of d s] by (cases "js_split d s") (simp_all add: Let_def)
qed

lemma image_format_ok:
  assumes "entry_ok item"
  shows "image_format (js_get item ''m'') = Inr (extension_of item)"
proof (cases "nullish (js_get item ''m'')")
  case True
  then show ?thesis
    by (cases "js_get item ''m''") (simp_all add: image_format_def extension_of_def)
next
  case False
  with assms obtain s where s: "js_get item ''m'' = JStr s"
    by (auto simp: entry_ok_def)
  show ?thesis
    unfolding image_format_def extension_of_def s mime_subtype_def
    using js_split_second[where d = "CHR ''/''" and s = s and dflt = "''jpg''"] by (simp add: Let_def)
qed

lemma gallery_url_ok:
  assumes "entry_ok item"
  shows "gallery_url item = Inr (if valid_image item then url_of item else JNull)"
  using assms image_format_ok[OF assms]
  by (simp add: gallery_url_def valid_image_def url_of_def entry_ok_def)

lemma map_result_ok:
  assumes "\<forall>x \<in> set xs. f x = Inr (g x)"
  shows "map_result f xs = Inr (map g xs)"
  using assms by (induction xs) auto

lemma filter_urls:
  "filter (\<lambda>url. url \<noteq> JNull) (map (\<lambda>item. if valid_image item then url_of item else JNull) items)
   = map url_of (filter valid_image items)"
  by (induction items) (auto simp: url_of_def)

lemma own_properties_distinct:
  "distinct (map fst kvs) \<Longrightarrow> own_properties kvs = kvs"
proof (induction kvs)
  case Nil
  then show ?case by simp
next
  case (Cons p kvs)
  obtain k v where p: "p = (k, v)" by (cases p)
  from Cons.prems p have "filter (\<lambda>q. fst q \<noteq> k) kvs = kvs"
    by (auto simp: filter_id_conv)
  with Cons p show ?case by simp
qed

lemma mset_object_entries:
  assumes "distinct (map fst kvs)"
  shows "mset (object_entries (JObj kvs)) = mset kvs"
  using own_properties_distinct[OF assms]
  by (simp add: object_entries_def multiset_partition[symmetric] add.commute)

lemma set_object_entries:
  assumes "distinct (map fst kvs)"
  shows "set (object_entries (JObj kvs)) = set kvs"
  using mset_object_entries[OF assms] by (metis set_mset_mset)

text \<open>
  C8. For a gallery post whose media metadata is an object, the gallery URLs are the URLs
  \<open>https://i.redd.it/<id>.<ext>\<close> of the entries that are valid images, one for each such
  entry and none for any other entry, in the order of \<open>Object.keys\<close>; the extension is the
  MIME subtype of the entry, and \<open>jpg\<close> when the entry has no MIME type.
\<close>

theorem gallery_urls_valid_images:
  assumes "\<not> nullish post"
    and "truthy (js_get post ''is_gallery'')"
    and "js_get post ''media_metadata'' = JObj kvs"
    and "distinct (map fst kvs)"
    and "\<forall>item \<in> snd ` set kvs. entry_ok item"
  shows "gallery_urls post = Inr (JArr (map url_of (filter valid_image (map snd (object_entries (JObj kvs))))))
    \<and> mset (object_entries (JObj kvs)) = mset kvs
    \<and> mset (map url_of (filter valid_image (map snd (object_entries (JObj kvs)))))
        = mset (map url_of (filter valid_image (map snd kvs)))
    \<and> length (map url_of (filter valid_image (map snd (object_entries (JObj kvs)))))
        = length (filter valid_image (map snd kvs))"
proof (intro conjI)
  let ?items = "map snd (object_entries (JObj kvs))"
  have "\<forall>item \<in> set ?items. gallery_url item = Inr (if valid_image item then url_of item else JNull)"
  proof
    fix item
    assume "item \<in> set ?items"
    then have "item \<in> snd ` set kvs"
      using set_object_entries[OF assms(4)] by simp
    with assms(5) have "entry_ok item" by blast
    then show "gallery_url item = Inr (if valid_image item then url_of item else JNull)"
      by (rule gallery_url_ok)
  qed
  then have "map_result gallery_url ?items = Inr (map (\<lambda>item. if valid_image item then url_of item else JNull) ?items)"
    by (rule map_result_ok)
  then have "gallery_urls post = Inr (JArr (filter (\<lambda>url. url \<noteq> JNull)
      (map (\<lambda>item. if valid_image item then url_of item else JNull) ?items)))"
    using assms(1-3) by (simp add: gallery_urls_def del: map_map)
  then show "gallery_urls post = Inr (JArr (map url_of (filter valid_image ?items)))"
    by (simp only: filter_urls)
  show m: "mset (object_entries (JObj kvs)) = mset kvs"
    by (rule mset_object_entries[OF assms(4)])
  have f: "mset (filter valid_image ?items) = mset (filter valid_image (map snd kvs))"
    using m by (metis mset_filter mset_map)
  then show "mset (map url_of (filter valid_image ?items)) = mset (map url_of (filter valid_image (map snd kvs)))"
    by (metis mset_map)
  from f show "length (map url_of (filter valid_image ?items)) = length (filter valid_image (map snd kvs))"
    by (metis length_map size_mset)
qed

theorem gallery_urls_valid_images_witness:
  "gallery_urls example_gallery = Inr (JArr [JStr ''https://i.redd.it/abc.png'', JStr ''https://i.redd.it/q7.jpg''])"
proof -
  let ?kvs = "[(''abc'', JObj [(''status'', JStr ''valid''), (''e'', JStr ''Image''), (''m'', JStr ''image/png''), (''id'', JStr ''abc'')]),
      (''x12'', JObj [(''status'', JStr ''failed''), (''e'', JStr ''Image''), (''m'', JStr ''image/png''), (''id'', JStr ''x12'')]),
      (''q7'', JObj [(''status'', JStr ''valid''), (''e'', JStr ''Image''), (''id'', JStr ''q7'')])]"
  have 1: "\<not> nullish example_gallery" by (simp add: example_gallery_def)
  have 2: "truthy (js_get example_gallery ''is_gallery'')" by (simp add: example_gallery_def)
  have 3: "js_get example_gallery ''media_metadata'' = JObj ?kvs" by (simp add: example_gallery_def)
  have 4: "distinct (map fst ?kvs)" by simp
  have 5: "\<forall>item \<in> snd ` set ?kvs. entry_ok item" by (simp add: entry_ok_def)
  show ?thesis
    using gallery_urls_valid_images[OF 1 2 3 4 5]
    by (simp add: object_entries_def is_array_index_def is_digit_def url_of_def valid_image_def
        extension_of_def mime_subtype_def)
qed

section \<open>The retry policy\<close>

lemma retry_from_char:
  assumes "retry_from lib attempts remaining k = (res, delays)"
  shows "length delays \<le> remaining
    \<and> res = attempts (k + length delays)
    \<and> delays = map retryDelay [Suc k..<Suc (k + length delays)]
    \<and> (\<forall>j < length delays. retryable lib (attempts (k + j)))
    \<and> (length delays < remaining \<longrightarrow> \<not> retryable lib (attempts (k + length delays)))"
  using assms
proof (induction remaining arbitrary: k res delays)
  case 0
  then show ?case by auto
next
  case (Suc remaining)
  show ?case
  proof (cases "retryable lib (attempts k)")
    case False
    with Suc.prems have "res = attempts k" "delays = []"
      by (auto simp: retryable_def split: attempt.splits)
    with False show ?thesis by simp
  next
    case True
    then obtain err where err: "attempts k = Failed err" "retryCondition lib err"
      by (auto simp: retryable_def split: attempt.splits)
    obtain res' ds where rec: "retry_from lib attempts remaining (Suc k) = (res', ds)"
      by (cases "retry_from lib attempts remaining (Suc k)")
    with Suc.prems err have rd: "res = res'" "delays = retryDelay (Suc k) # ds"
      by auto
    note ih = Suc.IH[OF rec]
    have all: "\<forall>j < length delays. retryable lib (attempts (k + j))"
    proof (intro allI impI)
      fix j assume j: "j < length delays"
      show "retryable lib (attempts (k + j))"
      proof (cases j)
        case 0
        with True show ?thesis by simp
      next
        case (Suc i)
        with j rd have "i < length ds" by simp
        with ih have "retryable lib (attempts (Suc k + i))" by blast
        with Suc show ?thesis by simp
      qed
    qed
    have "[Suc k..<Suc (k + length delays)] = Suc k # [Suc (Suc k)..<Suc (Suc k + length ds)]"
      unfolding rd by (subst upt_rec) simp
    then have "map retryDelay [Suc k..<Suc (k + length delays)]
        = retryDelay (Suc k) # map retryDelay [Suc (Suc k)..<Suc (Suc k + length ds)]"
      by simp
    moreover have "length delays = Suc (length ds)" using rd by simp
    ultimately show ?thesis using ih rd all by simp
  qed
qed

lemma retryable_iff:
  "retryable lib a \<longleftrightarrow> (\<exists>err. a = Failed err \<and> (response_status err = Some 429 \<or> lib err))"
  by (cases a) (simp_all add: retryable_def retryCondition_def)

lemma delays_of_three:
  assumes "n \<le> 3"
  shows "map retryDelay [Suc 0..<Suc n] = take n [1000, 2000, 4000]"
proof -
  from assms have "n = 0 \<or> n = 1 \<or> n = 2 \<or> n = 3" by arith
  then show ?thesis
    by (elim disjE) (simp_all add: retryDelay_def upt_rec)
qed

text \<open>
  C3. A dispatched call is retried at most 3 times, and the result is that of the last
  attempt made. Every attempt that was followed by a retry failed with status 429 or
  with an error the package classifies as a network or idempotent-request error, and
  when fewer than 3 retries were made the last attempt did not fail so; in particular
  the first failure is retried if and only if it is of that kind. The delays before the
  retries are 1000, 2000 and 4000 ms (\<open>2\<^sup>n\<^sup>-\<^sup>1\<close> seconds before retry \<open>n\<close>). A
  response with another status from 400 to 499, which the package does not classify so,
  is surfaced at the first attempt without a retry.
\<close>

theorem retry_policy:
  fixes lib :: "axios_error \<Rightarrow> bool" and attempts :: "nat \<Rightarrow> 'a attempt"
  assumes "dispatch lib attempts = (res, delays)"
  shows "length delays \<le> 3
    \<and> res = attempts (length delays)
    \<and> delays = take (length delays) [1000, 2000, 4000]
    \<and> (\<forall>j < length delays. \<exists>err. attempts j = Failed err \<and> (response_status err = Some 429 \<or> lib err))
    \<and> (length delays < 3 \<longrightarrow>
          (\<forall>err. attempts (length delays) = Failed err \<longrightarrow> \<not> (response_status err = Some 429 \<or> lib err)))
    \<and> (\<forall>err. attempts 0 = Failed err \<longrightarrow>
          (delays \<noteq> [] \<longleftrightarrow> response_status err = Some 429 \<or> lib err))
    \<and> (\<forall>err s. attempts 0 = Failed err \<and> response_status err = Some s \<and> 400 \<le> s \<and> s < 500
          \<and> s \<noteq> 429 \<and> \<not> lib err \<longrightarrow> res = Failed err \<and> delays = [])
    \<and> (\<forall>n. 0 < n \<longrightarrow> retryDelay n = 2 ^ (n - 1) * 1000)"
proof -
  from assms have rf: "retry_from lib attempts 3 0 = (res, delays)"
    by (simp add: dispatch_def RETRY_COUNT_def)
  note c = retry_from_char[OF rf]
  have len: "length delays \<le> 3" using c by simp
  have res: "res = attempts (length delays)" using c by simp
  have "delays = map retryDelay [Suc 0..<Suc (length delays)]" using c by simp
  then have ds: "delays = take (length delays) [1000, 2000, 4000]"
    using delays_of_three[OF len] by simp
  have fails: "\<forall>j < length delays. \<exists>err. attempts j = Failed err \<and> (response_status err = Some 429 \<or> lib err)"
  proof -
    from c have "\<forall>j < length delays. retryable lib (attempts (0 + j))" by blast
    then show ?thesis by (simp add: retryable_iff)
  qed
  have stop: "length delays < 3 \<longrightarrow>
          (\<forall>err. attempts (length delays) = Failed err \<longrightarrow> \<not> (response_status err = Some 429 \<or> lib err))"
  proof -
    from c have "length delays < 3 \<longrightarrow> \<not> retryable lib (attempts (0 + length delays))" by blast
    then show ?thesis by (simp add: retryable_iff)
  qed
  have first: "\<forall>err. attempts 0 = Failed err \<longrightarrow>
          (delays \<noteq> [] \<longleftrightarrow> response_status err = Some 429 \<or> lib err)"
  proof (intro allI impI)
    fix err assume a: "attempts 0 = Failed err"
    show "delays \<noteq> [] \<longleftrightarrow> response_status err = Some 429 \<or> lib err"
    proof
      assume "delays \<noteq> []"
      then have "0 < length delays" by simp
      with fails a show "response_status err = Some 429 \<or> lib err" by fastforce
    next
      assume r: "response_status err = Some 429 \<or> lib err"
      show "delays \<noteq> []"
      proof
        assume "delays = []"
        with stop a r show False by simp
      qed
    qed
  qed
  have other: "\<forall>err s. attempts 0 = Failed err \<and> response_status err = Some s \<and> 400 \<le> s \<and> s < 500
          \<and> s \<noteq> 429 \<and> \<not> lib err \<longrightarrow> res = Failed err \<and> delays = []"
  proof (intro allI impI)
    fix err s
    assume a: "attempts 0 = Failed err \<and> response_status err = Some s \<and> 400 \<le> s \<and> s < 500
          \<and> s \<noteq> 429 \<and> \<not> lib err"
    with first have "delays = []" by auto
    with res a show "res = Failed err \<and> delays = []" by simp
  qed
  have "\<forall>n. 0 < n \<longrightarrow> retryDelay n = 2 ^ (n - 1) * 1000"
    by (simp add: retryDelay_def)
  with len res ds fails stop first other show ?thesis by blast
qed

theorem retry_policy_witness:
  "dispatch no_response (always_status 429) = (always_status 429 3, [1000, 2000, 4000])
   \<and> dispatch no_response (always_status 404) = (always_status 404 0, [])"
proof -
  have a: "dispatch no_response (always_status 429) = (always_status 429 3, [1000, 2000, 4000])"
    by (simp add: dispatch_def RETRY_COUNT_def numeral_3_eq_3 always_status_def retryCondition_def retryDelay_def)
  have b: "dispatch no_response (always_status 404) = (always_status 404 0, [])"
    by (simp add: dispatch_def RETRY_COUNT_def numeral_3_eq_3 always_status_def retryCondition_def no_response_def)
  show ?thesis
    using a b retry_policy[OF a, THEN conjunct1] retry_policy[OF b, THEN conjunct1] by simp
qed

section \<open>Concurrent callers of the token manager\<close>

lemma filter_removed:
  assumes "distinct (map fst ws)" and "map_of ws c = Some v"
  shows "length (filter P (filter (\<lambda>e. fst e \<noteq> c) ws))
         = length (filter P ws) - (if P (c, v) then 1 else 0)"
  using assms
proof (induction ws)
  case Nil
  then show ?case by simp
next
  case (Cons e ws)
  show ?case
  proof (cases "fst e = c")
    case True
    with Cons.prems have e: "e = (c, v)" by (cases e) simp
    from Cons.prems True have "c \<notin> fst ` set ws" by simp
    then have "filter (\<lambda>e. fst e \<noteq> c) ws = ws"
      by (auto simp: filter_id_conv)
    with e show ?thesis by simp
  next
    case False
    with Cons.prems have "map_of ws c = Some v" "distinct (map fst ws)"
      by (cases e; simp)+
    from Cons.IH[OF this(2) this(1)] False
    have ih: "length (filter P (filter (\<lambda>e. fst e \<noteq> c) ws)) = length (filter P ws) - (if P (c, v) then 1 else 0)"
      by simp
    have "P (c, v) \<Longrightarrow> 0 < length (filter P ws)"
      using \<open>map_of ws c = Some v\<close> by (auto simp: filter_empty_conv dest: map_of_SomeD)
    with ih False show ?thesis by auto
  qed
qed

lemma distinct_removed: "distinct (map fst ws) \<Longrightarrow> distinct (map fst (filter (\<lambda>e. fst e \<noteq> c) ws))"
  by (simp add: distinct_map_filter)

lemma after_post_not_fetching:
  "\<not> isFetchingToken (snd (getAppOnlyToken_after_post now outcome st))"
  by (cases outcome) (simp_all add: getAppOnlyToken_after_post_def token_failed_def)

lemma token_step_single_flight:
  assumes "single_flight r" and "token_step ev r = Some r'"
  shows "single_flight r'"
proof (cases ev)
  case (Call c now)
  with assms show ?thesis
    by (auto simp: single_flight_def in_flight_def getAppOnlyToken_enter_def split: if_splits)
next
  case (Timer c now)
  with assms(2) obtain since where w: "map_of (waiting r) c = Some (Sleeping, since)"
    and r': "r' = settle c now (getAppOnlyToken_after_sleep (service r)) r"
    by (auto split: option.splits awaiting.splits if_splits)
  from assms(1) have d: "distinct (map fst (waiting r))" by (simp add: single_flight_def)
  have "in_flight r' = in_flight r"
    using filter_removed[OF d w, of "\<lambda>e. fst (snd e) = Posting"]
    by (simp add: r' settle_def in_flight_def)
  with assms(1) d show ?thesis
    by (simp add: single_flight_def r' settle_def getAppOnlyToken_after_sleep_def distinct_removed)
next
  case (Reply c now outcome)
  with assms(2) obtain since where w: "map_of (waiting r) c = Some (Posting, since)"
    and r': "r' = settle c now (getAppOnlyToken_after_post now outcome (service r)) r"
    by (auto split: option.splits awaiting.splits if_splits)
  from assms(1) have d: "distinct (map fst (waiting r))" by (simp add: single_flight_def)
  have "(c, Posting, since) \<in> set (waiting r)"
    using w by (rule map_of_SomeD)
  then have "0 < in_flight r"
    by (force simp: in_flight_def filter_empty_conv)
  with assms(1) have "in_flight r = 1"
    by (simp add: single_flight_def split: if_splits)
  moreover have "in_flight r' = in_flight r - 1"
    using filter_removed[OF d w, of "\<lambda>e. fst (snd e) = Posting"]
    by (simp add: r' settle_def in_flight_def)
  ultimately show ?thesis
    using d by (simp add: single_flight_def r' settle_def after_post_not_fetching distinct_removed)
qed

lemma token_run_single_flight:
  assumes "token_run evs r = Some r'" and "single_flight r"
  shows "single_flight r'"
  using assms
proof (induction evs arbitrary: r)
  case Nil
  then show ?case by simp
next
  case (Cons ev evs)
  then obtain r1 where s: "token_step ev r = Some r1" and t: "token_run evs r1 = Some r'"
    by (auto split: option.splits)
  from token_step_single_flight[OF Cons.prems(2) s] Cons.IH[OF t] show ?case by simp
qed

text \<open>
  C1, as the code has it. In every run from a state in which no exchange is under way: a
  caller that arrives while no exchange is in flight sends one POST and sets
  \<open>isFetchingToken\<close>; at most one exchange is in flight at any moment, and one is in
  flight exactly while the flag is set; a caller that arrives while an exchange is in
  flight sends no POST and sleeps; its timer fires no sooner than 1000 ms after its call,
  and then the call returns the value \<open>accessToken\<close> holds at that moment, changes
  nothing and sends no POST.
\<close>

theorem one_exchange_in_flight:
  assumes "token_run evs (idle st) = Some r" and "\<not> isFetchingToken st"
  shows "in_flight r \<le> 1
    \<and> (isFetchingToken (service r) \<longleftrightarrow> in_flight r = 1)
    \<and> (\<forall>c now r'. \<not> isFetchingToken (service r) \<and> token_step (Call c now) r = Some r'
          \<longrightarrow> exchanges r' = exchanges r + 1 \<and> in_flight r' = 1
            \<and> isFetchingToken (service r')
            \<and> waiting r' = waiting r @ [(c, Posting, now)])
    \<and> (\<forall>c now r'. isFetchingToken (service r) \<and> token_step (Call c now) r = Some r'
          \<longrightarrow> exchanges r' = exchanges r \<and> in_flight r' = 1
            \<and> waiting r' = waiting r @ [(c, Sleeping, now)])
    \<and> (\<forall>c now r'. token_step (Timer c now) r = Some r'
          \<longrightarrow> (\<exists>since. map_of (waiting r) c = Some (Sleeping, since) \<and> since + 1000 \<le> now)
            \<and> finished r' = finished r @ [(c, Returned (accessToken (service r)))]
            \<and> service r' = service r \<and> exchanges r' = exchanges r)"
proof -
  have "single_flight (idle st)"
    using assms(2) by (simp add: single_flight_def idle_def in_flight_def)
  with assms(1) have sf: "single_flight r"
    by (rule token_run_single_flight)
  have a: "in_flight r \<le> 1" "isFetchingToken (service r) \<longleftrightarrow> in_flight r = 1"
    using sf by (simp_all add: single_flight_def)
  have p: "\<forall>c now r'. \<not> isFetchingToken (service r) \<and> token_step (Call c now) r = Some r'
          \<longrightarrow> exchanges r' = exchanges r + 1 \<and> in_flight r' = 1
            \<and> isFetchingToken (service r')
            \<and> waiting r' = waiting r @ [(c, Posting, now)]"
    using sf by (auto simp: single_flight_def getAppOnlyToken_enter_def in_flight_def split: if_splits)
  have b: "\<forall>c now r'. isFetchingToken (service r) \<and> token_step (Call c now) r = Some r'
          \<longrightarrow> exchanges r' = exchanges r \<and> in_flight r' = 1
            \<and> waiting r' = waiting r @ [(c, Sleeping, now)]"
    using a by (auto simp: getAppOnlyToken_enter_def in_flight_def split: if_splits)
  have c: "\<forall>c now r'. token_step (Timer c now) r = Some r'
          \<longrightarrow> (\<exists>since. map_of (waiting r) c = Some (Sleeping, since) \<and> since + 1000 \<le> now)
            \<and> finished r' = finished r @ [(c, Returned (accessToken (service r)))]
            \<and> service r' = service r \<and> exchanges r' = exchanges r"
    by (auto simp: settle_def getAppOnlyToken_after_sleep_def split: option.splits awaiting.splits if_splits)
  from a p b c show ?thesis by blast
qed

theorem one_exchange_in_flight_witness:
  "map_option in_flight (token_run three_callers (idle initial_state)) = Some 1
   \<and> map_option exchanges (token_run three_callers (idle initial_state)) = Some 1
   \<and> map_option waiting (token_run three_callers (idle initial_state))
       = Some [(0, Posting, 5000), (1, Sleeping, 5010), (2, Sleeping, 5020)]"
proof -
  let ?r = "\<lparr>service = initial_state\<lparr>isFetchingToken := True\<rparr>, clock = 5020,
     waiting = [(0, Posting, 5000), (1, Sleeping, 5010), (2, Sleeping, 5020)], finished = [], exchanges = 1\<rparr>"
  have run: "token_run three_callers (idle initial_state) = Some ?r"
    by (simp add: three_callers_def idle_def initial_state_def getAppOnlyToken_enter_def)
  have init: "\<not> isFetchingToken initial_state"
    by (simp add: initial_state_def)
  from one_exchange_in_flight[OF run init] have "in_flight ?r \<le> 1" by blast
  then show ?thesis
    using run by (simp add: in_flight_def)
qed

text \<open>
  C1, as the spec states it (every caller observes the outcome of the one exchange), fails:
  when the exchange fails, the caller that waited is returned \<open>null\<close> and no error; when
  the exchange takes longer than the 1000 ms of the timer, the caller that waited is
  returned the \<open>null\<close> held before the exchange succeeds.
\<close>

theorem waiter_misses_outcome:
  "map_option finished (token_run failed_exchange_run (idle initial_state)) =
     Some [(0, Threw (Error ''Failed to obtain Reddit access token. Check credentials and Reddit status. Request failed with status code 401'')),
           (1, Returned JNull)]
   \<and> map_option finished (token_run slow_exchange_run (idle initial_state)) =
     Some [(1, Returned JNull), (0, Returned (JStr ''tok''))]"
  by (simp add: failed_exchange_run_def slow_exchange_run_def idle_def initial_state_def
      getAppOnlyToken_enter_def getAppOnlyToken_after_post_def getAppOnlyToken_after_sleep_def
      token_failed_def token_expiry_def to_number_def settle_def)

section \<open>Pacing\<close>

text \<open>
  C2. The interval between two dispatches is not kept for requests that overlap: two
  requests that enter the interceptor while the same \<open>lastRequestTime\<close> is recorded
  compute the same delay, wake together and are dispatched at the same time, 0 ms apart.
\<close>

theorem overlapping_requests_unpaced:
  "map_option dispatched (pacing_run overlapping_requests (pacing_idle initial_state))
     = Some [(0, 5000), (1, 6100), (2, 6100)]"
  by (simp add: overlapping_requests_def pacing_idle_def initial_state_def pacing_delay_def
      BASE_REQUEST_DELAY_MS_def stamp_def)

text \<open>
  A request that passes the interceptor alone (no other request sleeps when it enters or
  when it is dispatched) is dispatched at least the interval after the time recorded.
\<close>

lemma pacing_in_turn:
  assumes "sleeping r = []"
    and "pacing_run (Enter c now # evs) r = Some r'"
    and "evs = [] \<or> evs = [Wake c now']"
    and "sleeping r' = []"
  shows "\<exists>t. dispatched r' = dispatched r @ [(c, t)]
           \<and> lastRequestTime (pservice r) + BASE_REQUEST_DELAY_MS \<le> t
           \<and> lastRequestTime (pservice r') = t"
  using assms
  by (auto simp: pacing_delay_def stamp_def split: option.splits if_splits)

end
